theory Spec2Isabelle
  imports Complex_Main "HOL-Library.AList"
begin

section \<open>Load balancer (src/middleware/loadBalancer.ts)\<close>

text \<open>
  JavaScript numbers are modelled as follows: the quantities the code obtains with
  \<^verbatim>\<open>parseInt\<close> (connection and job counters) and the millisecond timestamps are
  \<open>int\<close>; the load fractions and the score are \<open>real\<close>. A decimal literal of the
  source (\<^verbatim>\<open>0.9\<close>, \<^verbatim>\<open>0.7\<close>, \<^verbatim>\<open>0.8\<close>) is the real number it denotes, and
  the products \<^verbatim>\<open>MAX_WS_CONNECTIONS * 0.8\<close> and \<^verbatim>\<open>MAX_JOBS_PER_WORKER * 0.8\<close> are
  the reals 800 and 80 (as they are in double precision). Arithmetic on the reals is
  exact: the rounding of the score's sum is not modelled.
\<close>

datatype health_status = Healthy | Degraded | Unhealthy

record ServiceHealth =
  cpu :: real
  memory :: real
  lastUpdate :: int
  status :: health_status
  wsConnections :: int
  queueLength :: int
  processingJobs :: int

record WorkerStatus =
  workerId :: string
  health :: ServiceHealth
  activeJobs :: int
  lastHeartbeat :: int

definition HEALTH_CHECK_INTERVAL :: int where
  "HEALTH_CHECK_INTERVAL = 30000"

definition WORKER_TIMEOUT :: int where
  "WORKER_TIMEOUT = 60000"

definition MAX_JOBS_PER_WORKER :: int where
  "MAX_JOBS_PER_WORKER = 100"

definition MAX_WS_CONNECTIONS :: int where
  "MAX_WS_CONNECTIONS = 1000"

definition determineHealthStatus :: "real \<Rightarrow> real \<Rightarrow> int \<Rightarrow> int \<Rightarrow> health_status" where
  "determineHealthStatus c m ws pj =
     (if c > 0.9 \<or> m > 0.9 \<or> ws > MAX_WS_CONNECTIONS \<or> pj > MAX_JOBS_PER_WORKER
      then Unhealthy
      else if c > 0.7 \<or> m > 0.7
              \<or> real_of_int ws > real_of_int MAX_WS_CONNECTIONS * 0.8
              \<or> real_of_int pj > real_of_int MAX_JOBS_PER_WORKER * 0.8
      then Degraded
      else Healthy)"

text \<open>
  What one call of \<^verbatim>\<open>getServiceHealth\<close> reads from its surroundings: the load average
  divided by the number of cores, the used fraction of the memory, the hash
  \<^verbatim>\<open>worker_counters:<workerId>\<close> (a counter that is absent reads as \<^verbatim>\<open>"0"\<close>), the
  length of the list \<^verbatim>\<open>evolution_queue\<close>, and the clock.
\<close>

record host_sample =
  cpuUsage :: real
  memoryUsage :: real
  counters :: "string \<rightharpoonup> int"
  evolutionQueueLength :: int
  clockNow :: int

definition counter :: "(string \<rightharpoonup> int) \<Rightarrow> string \<Rightarrow> int" where
  "counter cs k = (case cs k of None \<Rightarrow> 0 | Some v \<Rightarrow> v)"

definition getServiceHealth :: "host_sample \<Rightarrow> ServiceHealth" where
  "getServiceHealth s =
     (let ws = counter (counters s) ''ws_connections'';
          pj = counter (counters s) ''active_jobs''
      in \<lparr> cpu = cpuUsage s, memory = memoryUsage s, lastUpdate = clockNow s,
           status = determineHealthStatus (cpuUsage s) (memoryUsage s) ws pj,
           wsConnections = ws, queueLength = evolutionQueueLength s,
           processingJobs = pj \<rparr>)"

definition getActiveJobCount :: "host_sample \<Rightarrow> int" where
  "getActiveJobCount s = counter (counters s) ''active_jobs''"

definition canAcceptConnection :: "host_sample \<Rightarrow> bool" where
  "canAcceptConnection s =
     (let st = getServiceHealth s
      in status st \<noteq> Unhealthy \<and> wsConnections st < MAX_WS_CONNECTIONS)"

definition calculateWorkerScore :: "WorkerStatus \<Rightarrow> real" where
  "calculateWorkerScore w =
     (let healthScore = (if status (health w) = Healthy then 1 else 0.5);
          loadScore = 1 - real_of_int (activeJobs w) / real_of_int MAX_JOBS_PER_WORKER;
          cpuScore = 1 - cpu (health w);
          memoryScore = 1 - memory (health w);
          wsScore = 1 - real_of_int (wsConnections (health w)) / real_of_int MAX_WS_CONNECTIONS
      in healthScore * 0.3 + loadScore * 0.2 + cpuScore * 0.2 + memoryScore * 0.2
         + wsScore * 0.1)"

text \<open>
  The hash \<^verbatim>\<open>workers\<close> is an association list in the order in which
  \<^verbatim>\<open>Object.entries\<close> enumerates it. \<^verbatim>\<open>getOptimalWorker\<close> reads the clock inside a
  synchronous \<^verbatim>\<open>filter\<close>; the model takes the one reading \<open>now\<close>.
\<close>

definition isActive :: "int \<Rightarrow> string \<times> WorkerStatus \<Rightarrow> bool" where
  "isActive now e =
     (status (health (snd e)) \<noteq> Unhealthy \<and> now - lastHeartbeat (snd e) < WORKER_TIMEOUT)"

definition better :: "string \<times> real \<Rightarrow> string \<times> real \<Rightarrow> string \<times> real" where
  "better best current = (if snd current > snd best then current else best)"

definition getOptimalWorker :: "int \<Rightarrow> (string \<times> WorkerStatus) list \<Rightarrow> string option" where
  "getOptimalWorker now workers =
     (if workers = [] then None
      else let activeWorkers = filter (isActive now) workers
           in if activeWorkers = [] then None
              else (case map (\<lambda>e. (fst e, calculateWorkerScore (snd e))) activeWorkers of
                      [] \<Rightarrow> None
                    | x # xs \<Rightarrow> Some (fst (foldl better x xs))))"

text \<open>
  The part of the store that \<^verbatim>\<open>updateWorkerHealth\<close> writes: the hash \<^verbatim>\<open>workers\<close> and
  the time to live of that key, in seconds as \<^verbatim>\<open>EXPIRE\<close> takes it (\<open>None\<close>: no expiry).
\<close>

record registry =
  workers :: "(string \<times> WorkerStatus) list"
  workersTtl :: "int option"

definition updateWorkerHealth :: "string \<Rightarrow> host_sample \<Rightarrow> host_sample \<Rightarrow> int \<Rightarrow> registry \<Rightarrow> registry" where
  "updateWorkerHealth self s1 s2 now r =
     (let workerStatus = \<lparr> workerId = self, health = getServiceHealth s1,
                           activeJobs = getActiveJobCount s2, lastHeartbeat = now \<rparr>
      in r\<lparr> workers := AList.update self workerStatus (workers r), workersTtl := Some 120 \<rparr>)"


text \<open>
  The order of the health tiers, and the score formula as the specification words it
  (its load term reads the in-flight jobs of the health snapshot); both serve only to
  state the claims about \<open>calculateWorkerScore\<close>.
\<close>

definition tier :: "health_status \<Rightarrow> nat" where
  "tier s = (case s of Unhealthy \<Rightarrow> 0 | Degraded \<Rightarrow> 1 | Healthy \<Rightarrow> 2)"

definition spec_score :: "WorkerStatus \<Rightarrow> real" where
  "spec_score w =
     0.3 * (if status (health w) = Healthy then 1.0 else 0.5)
     + 0.2 * (1 - real_of_int (processingJobs (health w)) / real_of_int MAX_JOBS_PER_WORKER)
     + 0.2 * (1 - cpu (health w))
     + 0.2 * (1 - memory (health w))
     + 0.1 * (1 - real_of_int (wsConnections (health w)) / real_of_int MAX_WS_CONNECTIONS)"

text \<open>Concrete workers and registries on which the theorems below are evaluated.\<close>

definition mkWorker :: "string \<Rightarrow> health_status \<Rightarrow> int \<Rightarrow> int \<Rightarrow> int \<Rightarrow> WorkerStatus" where
  "mkWorker n s jobs inflight beat =
     \<lparr> workerId = n,
       health = \<lparr> cpu = 0, memory = 0, lastUpdate = beat, status = s, wsConnections = 0,
                  queueLength = 0, processingJobs = inflight \<rparr>,
       activeJobs = jobs, lastHeartbeat = beat \<rparr>"

definition sampleRegistry :: "(string \<times> WorkerStatus) list" where
  "sampleRegistry =
     [(''worker-c'', mkWorker ''worker-c'' Unhealthy 0 0 70000),
      (''worker-d'', mkWorker ''worker-d'' Healthy 0 0 10000),
      (''worker-b'', mkWorker ''worker-b'' Degraded 50 50 70000),
      (''worker-a'', mkWorker ''worker-a'' Healthy 0 0 70000),
      (''worker-e'', mkWorker ''worker-e'' Healthy 0 0 70000)]"

definition idleHost :: host_sample where
  "idleHost = \<lparr> cpuUsage = 0, memoryUsage = 0, counters = Map.empty,
                evolutionQueueLength = 0, clockNow = 0 \<rparr>"

section \<open>Admission control (src/middleware/rateLimiter.ts)\<close>

record RateLimitConfig =
  windowMs :: int
  max' :: int
  keyPrefix :: string



definition limits_evolution :: RateLimitConfig where
  "limits_evolution = \<lparr> windowMs = 5 * 60 * 1000, max' = 50, keyPrefix = ''rl:evolution:'' \<rparr>"

definition limits_memory :: RateLimitConfig where
  "limits_memory = \<lparr> windowMs = 5 * 60 * 1000, max' = 100, keyPrefix = ''rl:memory:'' \<rparr>"

text \<open>
  A request as the limiter sees it: the authenticated user id, the network address, and
  the status code with which the response ends when the request is let through.
\<close>

record Request =
  userId :: "string option"
  ip :: "string option"
  finalStatus :: nat

record RateLimitBody =
  error :: string
  retryAfter :: int
  limit :: int
  type :: string

text \<open>
  The outcome of a check: let through, or answered with a status code, a
  \<^verbatim>\<open>Retry-After\<close> header (seconds) and the JSON body.
\<close>

datatype limiter_result = Admitted | Rejected nat int RateLimitBody

text \<open>\<^verbatim>\<open>String.prototype.replace\<close> with a string pattern: the first occurrence only.\<close>

fun replace_first :: "string \<Rightarrow> string \<Rightarrow> string \<Rightarrow> string" where
  "replace_first pat rep [] = (if pat = [] then rep else [])"
| "replace_first pat rep (c # cs) =
     (if take (length pat) (c # cs) = pat then rep @ drop (length pat) (c # cs)
      else c # replace_first pat rep cs)"

definition keyGenerator :: "Request \<Rightarrow> string" where
  "keyGenerator req =
     (case userId req of
        Some u \<Rightarrow> if u \<noteq> [] then ''user:'' @ u
                  else (case ip req of Some a \<Rightarrow> if a \<noteq> [] then a else ''unknown''
                                      | None \<Rightarrow> ''unknown'')
      | None \<Rightarrow> (case ip req of Some a \<Rightarrow> if a \<noteq> [] then a else ''unknown''
                              | None \<Rightarrow> ''unknown''))"

text \<open>The key of a window in the store: the \<^verbatim>\<open>prefix\<close> of the store, then the generated key.\<close>

definition storeKey :: "RateLimitConfig \<Rightarrow> Request \<Rightarrow> string" where
  "storeKey config req = keyPrefix config @ keyGenerator req"

text \<open>The \<^verbatim>\<open>handler\<close> option: status 429 and the JSON body.\<close>

definition handler :: "RateLimitConfig \<Rightarrow> nat \<times> RateLimitBody" where
  "handler config =
     (429,
      \<lparr> error = ''Too many requests'',
        retryAfter = \<lceil>real_of_int (windowMs config) / 1000\<rceil>,
        limit = max' config,
        type = replace_first '':'' '''' (replace_first ''rl:'' '''' (keyPrefix config)) \<rparr>)"

text \<open>
  Modelled from the spec: the window counter that \<^verbatim>\<open>createLimiter\<close> delegates to the
  rate-limiting middleware and its store, which are outside the sources. A window is
  the pair (count, expiry time in ms) under its store key; an increment creates it with
  TTL = windowMs when it is absent or expired, and returns the count and the expiry.
  The option \<^verbatim>\<open>skipFailedRequests: true\<close> that \<^verbatim>\<open>createLimiter\<close> passes gives the
  hit back when the response ends with a status of 400 or more, which the 429 of a
  rejection is. Before it calls the handler, the middleware sets the header
  \<^verbatim>\<open>Retry-After\<close> to the time the window has left, in seconds rounded up.
\<close>

type_synonym window_store = "string \<rightharpoonup> int \<times> int"

definition store_increment :: "int \<Rightarrow> int \<Rightarrow> string \<Rightarrow> window_store \<Rightarrow> (int \<times> int) \<times> window_store" where
  "store_increment wMs now k st =
     (let w = (case st k of
                 Some (hits, expiresAt) \<Rightarrow>
                   if now < expiresAt then (hits + 1, expiresAt) else (1, now + wMs)
               | None \<Rightarrow> (1, now + wMs))
      in (w, st(k \<mapsto> w)))"

definition store_decrement :: "string \<Rightarrow> window_store \<Rightarrow> window_store" where
  "store_decrement k st =
     (case st k of Some (hits, expiresAt) \<Rightarrow> st(k \<mapsto> (hits - 1, expiresAt)) | None \<Rightarrow> st)"

definition retryAfterHeader :: "int \<Rightarrow> int \<Rightarrow> int" where
  "retryAfterHeader now resetTime = max 0 \<lceil>real_of_int (resetTime - now) / 1000\<rceil>"

definition createLimiter :: "RateLimitConfig \<Rightarrow> int \<Rightarrow> Request \<Rightarrow> window_store \<Rightarrow> limiter_result \<times> window_store" where
  "createLimiter config now req st =
     (let k = storeKey config req;
          ((totalHits, resetTime), st1) = store_increment (windowMs config) now k st
      in if totalHits > max' config
         then (Rejected (fst (handler config)) (retryAfterHeader now resetTime)
                 (snd (handler config)),
               store_decrement k st1)
         else (Admitted, if finalStatus req \<ge> 400 then store_decrement k st1 else st1))"

text \<open>
  A sequence of admission checks on one store, each with the limiter (category) that
  makes it, the time at which it is made, and the request.
\<close>

type_synonym check = "RateLimitConfig \<times> int \<times> Request"

fun runChecks :: "check list \<Rightarrow> window_store \<Rightarrow> limiter_result list \<times> window_store" where
  "runChecks [] st = ([], st)"
| "runChecks ((config, now, req) # rest) st =
     (let (r, st1) = createLimiter config now req st;
          (rs, st2) = runChecks rest st1
      in (r # rs, st2))"

text \<open>
  Notions used to state the properties: the store key of a check; the window in which
  a check at time \<open>now\<close> counts (hits so far and expiry: the live window, or a new one);
  whether a check counts against a key (it was admitted and its response succeeded);
  the number of counting checks, and of all checks, of a key among the first \<open>i\<close>; and
  the time a window has left.
\<close>

definition checkKey :: "check \<Rightarrow> string" where
  "checkKey c = storeKey (fst c) (snd (snd c))"

definition windowAt :: "int \<Rightarrow> int \<Rightarrow> string \<Rightarrow> window_store \<Rightarrow> int \<times> int" where
  "windowAt wMs now k st =
     (case st k of
        Some (hits, expiresAt) \<Rightarrow> if now < expiresAt then (hits, expiresAt) else (0, now + wMs)
      | None \<Rightarrow> (0, now + wMs))"

definition counted :: "string \<Rightarrow> limiter_result \<times> check \<Rightarrow> bool" where
  "counted k p = (checkKey (snd p) = k \<and> fst p = Admitted \<and> finalStatus (snd (snd (snd p))) < 400)"

definition countedBefore :: "string \<Rightarrow> check list \<Rightarrow> limiter_result list \<Rightarrow> nat \<Rightarrow> nat" where
  "countedBefore k checks rs i = length (filter (counted k) (take i (zip rs checks)))"







section \<open>Backlog drain (src/services/virusProtocol.ts)\<close>

text \<open>
  The state a drain run touches: the fields \<^verbatim>\<open>isProcessing\<close> and
  \<^verbatim>\<open>processStartTime\<close> of the instance, the list \<^verbatim>\<open>evolution_queue\<close> of the store
  (head first), the local \<^verbatim>\<open>processedCount\<close>, and \<open>batches\<close>, the log of the
  arguments of the calls of \<^verbatim>\<open>processEvolutionBatch\<close>.

  What the run meets at its \<open>k\<close>-th pass through the loop (from 0): the clock reading
  of the budget check, whether \<^verbatim>\<open>processEvolutionBatch\<close> returns or throws, and whether
  \<^verbatim>\<open>toggleProcessing(false)\<close> is called while that batch is awaited.
\<close>

record drainer =
  isProcessing :: bool
  processStartTime :: "int option"
  evolution_queue :: "string list"
  processedCount :: nat
  batches :: "string list list"

record drain_env =
  clock :: "nat \<Rightarrow> int"
  batchOk :: "nat \<Rightarrow> string list \<Rightarrow> bool"
  toggledOff :: "nat \<Rightarrow> bool"

definition maxProcessingTime :: int where
  "maxProcessingTime = 1000 * 60 * 5"

definition batchSize :: nat where
  "batchSize = 10"

text \<open>\<^verbatim>\<open>Date.now() - this.processStartTime > this.maxProcessingTime\<close>; \<^verbatim>\<open>null\<close> counts as 0.\<close>

definition timeExceeded :: "drain_env \<Rightarrow> nat \<Rightarrow> drainer \<Rightarrow> bool" where
  "timeExceeded env k st =
     (clock env k - (case processStartTime st of Some t \<Rightarrow> t | None \<Rightarrow> 0) > maxProcessingTime)"

text \<open>
  The \<^verbatim>\<open>while (true)\<close> loop: \<^verbatim>\<open>lrange 0 (batchSize - 1)\<close> is \<open>take\<close>,
  \<^verbatim>\<open>ltrim batchSize -1\<close> is \<open>drop\<close>, \<^verbatim>\<open>rpush\<close> appends at the tail. The loop never
  reads \<^verbatim>\<open>isProcessing\<close>; a \<^verbatim>\<open>toggleProcessing(false)\<close> during the batch clears it.
  The store commands are taken to succeed (a store error would end the run through the
  outer \<^verbatim>\<open>catch\<close>), and no other client changes the backlog during the run.
\<close>

function processLoop :: "drain_env \<Rightarrow> nat \<Rightarrow> drainer \<Rightarrow> drainer" where
  "processLoop env k st =
     (if timeExceeded env k st then st
      else let interactionIds = take batchSize (evolution_queue st)
           in if length interactionIds = 0 then st
              else let st1 = st\<lparr>evolution_queue := drop batchSize (evolution_queue st)\<rparr>;
                       st2 = (if toggledOff env k then st1\<lparr>isProcessing := False\<rparr> else st1)
                               \<lparr>batches := batches st1 @ [interactionIds]\<rparr>
                   in if batchOk env k interactionIds
                      then processLoop env (Suc k)
                             (st2\<lparr>processedCount := processedCount st2 + length interactionIds\<rparr>)
                      else st2\<lparr>evolution_queue := evolution_queue st2 @ interactionIds\<rparr>)"
  by pat_completeness auto
termination
  by (relation "measure (\<lambda>(env, k, st). length (evolution_queue st))")
     (auto simp: batchSize_def)

declare processLoop.simps [simp del]

datatype run_result = AlreadyInProgress | ProcessingComplete nat

definition processEvolutionQueue :: "drain_env \<Rightarrow> int \<Rightarrow> drainer \<Rightarrow> run_result \<times> drainer" where
  "processEvolutionQueue env now st =
     (if isProcessing st then (AlreadyInProgress, st)
      else let st0 = st\<lparr>isProcessing := True, processStartTime := Some now, processedCount := 0\<rparr>;
               st1 = processLoop env 0 st0
           in (ProcessingComplete (processedCount st1),
               st1\<lparr>isProcessing := False, processStartTime := None\<rparr>))"

definition toggleProcessing :: "drain_env \<Rightarrow> int \<Rightarrow> bool \<Rightarrow> drainer \<Rightarrow> drainer" where
  "toggleProcessing env now shouldProcess st =
     (if shouldProcess \<and> \<not> isProcessing st then snd (processEvolutionQueue env now st)
      else if \<not> shouldProcess then st\<lparr>isProcessing := False\<rparr>
      else st)"

text \<open>
  Several clients on one backlog. The store runs each command atomically and may run
  commands of any client between two commands of a drain run. The commands that the
  code sends on the list \<^verbatim>\<open>evolution_queue\<close>: the dequeue of lines 558 to 566,
  \<^verbatim>\<open>LRANGE\<close> then \<^verbatim>\<open>LTRIM\<close>; the enqueue of \<^verbatim>\<open>queueForEvolution\<close>, an \<^verbatim>\<open>LPUSH\<close>
  at the head; the requeue of a failed batch, an \<^verbatim>\<open>RPUSH\<close> at the tail
  (\<^verbatim>\<open>LLEN\<close> only reads the length). \<open>held c i\<close> is the \<^verbatim>\<open>interactionIds\<close> of
  instance \<open>i\<close>.
\<close>

datatype store_cmd = LRANGE | LTRIM | LPUSH string | RPUSH

record cluster =
  backlog :: "string list"
  held :: "nat \<Rightarrow> string list"

fun store_step :: "cluster \<Rightarrow> nat \<times> store_cmd \<Rightarrow> cluster" where
  "store_step c (i, LRANGE) = c\<lparr>held := (held c)(i := take batchSize (backlog c))\<rparr>"
| "store_step c (i, LTRIM) = c\<lparr>backlog := drop batchSize (backlog c)\<rparr>"
| "store_step c (i, LPUSH x) = c\<lparr>backlog := x # backlog c\<rparr>"
| "store_step c (i, RPUSH) = c\<lparr>backlog := backlog c @ held c i\<rparr>"

definition run_schedule :: "cluster \<Rightarrow> (nat \<times> store_cmd) list \<Rightarrow> cluster" where
  "run_schedule c sched = foldl store_step c sched"

text \<open>
  Every entry is in one place only: no entry occurs twice in the backlog, no entry held
  by a drainer is still in the backlog, and no entry is held by two drainers.
\<close>

definition exclusive :: "cluster \<Rightarrow> bool" where
  "exclusive c =
     (distinct (backlog c)
      \<and> (\<forall>i. set (held c i) \<inter> set (backlog c) = {})
      \<and> (\<forall>i j. i \<noteq> j \<longrightarrow> set (held c i) \<inter> set (held c j) = {}))"

text \<open>
  The state of a run after \<open>n\<close> passes of the loop, starting at pass \<open>k\<close>, in which
  every batch was processed (used to unroll \<open>processLoop\<close> in the proofs).
\<close>

definition after_batches :: "drain_env \<Rightarrow> nat \<Rightarrow> nat \<Rightarrow> drainer \<Rightarrow> drainer" where
  "after_batches env k n st =
     st\<lparr>evolution_queue := drop (batchSize * n) (evolution_queue st),
        isProcessing := isProcessing st \<and> (\<forall>i<n. \<not> toggledOff env (k + i)),
        batches := batches st
           @ map (\<lambda>i. take batchSize (drop (batchSize * i) (evolution_queue st))) [0..<n],
        processedCount := processedCount st + length (take (batchSize * n) (evolution_queue st))\<rparr>"

text \<open>Concrete backlogs, drainers and environments on which the theorems are evaluated.\<close>

definition ids12 :: "string list" where
  "ids12 = [''a'', ''b'', ''c'', ''d'', ''e'', ''f'', ''g'', ''h'', ''i'', ''j'', ''k'', ''l'']"

definition ids25 :: "string list" where
  "ids25 = [''a'', ''b'', ''c'', ''d'', ''e'', ''f'', ''g'', ''h'', ''i'', ''j'',
            ''k'', ''l'', ''m'', ''n'', ''o'', ''p'', ''q'', ''r'', ''s'', ''t'',
            ''u'', ''v'', ''w'', ''x'', ''y'']"

definition idleDrainer :: "string list \<Rightarrow> drainer" where
  "idleDrainer q = \<lparr> isProcessing = False, processStartTime = None, evolution_queue = q,
                     processedCount = 0, batches = [] \<rparr>"

definition allOkEnv :: drain_env where
  "allOkEnv = \<lparr> clock = (\<lambda>k. 100 * int k), batchOk = (\<lambda>k ids. True),
                toggledOff = (\<lambda>k. False) \<rparr>"

definition failFirstEnv :: drain_env where
  "failFirstEnv = \<lparr> clock = (\<lambda>k. 100 * int k), batchOk = (\<lambda>k ids. k \<noteq> 0),
                    toggledOff = (\<lambda>k. False) \<rparr>"

definition failSecondEnv :: drain_env where
  "failSecondEnv = \<lparr> clock = (\<lambda>k. 100 * int k), batchOk = (\<lambda>k ids. k \<noteq> 1),
                     toggledOff = (\<lambda>k. False) \<rparr>"

definition toggleEnv :: drain_env where
  "toggleEnv = \<lparr> clock = (\<lambda>k. 100 * int k), batchOk = (\<lambda>k ids. True),
                 toggledOff = (\<lambda>k. k = 0) \<rparr>"

definition midRun :: drainer where
  "midRun = \<lparr> isProcessing = True, processStartTime = Some 0,
               evolution_queue = [''k'', ''l''], processedCount = 0,
               batches = [take 10 ids12] \<rparr>"

definition freshCluster :: "string list \<Rightarrow> cluster" where
  "freshCluster q = \<lparr> backlog = q, held = (\<lambda>i. []) \<rparr>"

section \<open>Properties of the load balancer\<close>

subsection \<open>Health classification\<close>

text \<open>
  C1. The classification is a function of (cpu, memory, openConnections, inFlightJobs)
  alone. It is unhealthy exactly when cpu > 0.9 or memory > 0.9 or openConnections >
  MAX_CONN (1000) or inFlightJobs > MAX_JOBS (100); otherwise degraded exactly when
  cpu > 0.7 or memory > 0.7 or openConnections > 800 or inFlightJobs > 80; otherwise
  healthy. On the boundaries: cpu = 0.9 is not unhealthy (it is degraded) and cpu = 0.7
  with everything else idle is healthy.
\<close>

theorem determineHealthStatus_thresholds:
  "(determineHealthStatus c m ws pj = Unhealthy \<longleftrightarrow>
      c > 0.9 \<or> m > 0.9 \<or> ws > 1000 \<or> pj > 100)
   \<and> (determineHealthStatus c m ws pj = Degraded \<longleftrightarrow>
      \<not> (c > 0.9 \<or> m > 0.9 \<or> ws > 1000 \<or> pj > 100)
      \<and> (c > 0.7 \<or> m > 0.7 \<or> real_of_int ws > 0.8 * 1000 \<or> real_of_int pj > 0.8 * 100))
   \<and> (determineHealthStatus c m ws pj = Healthy \<longleftrightarrow>
      \<not> (c > 0.9 \<or> m > 0.9 \<or> ws > 1000 \<or> pj > 100)
      \<and> \<not> (c > 0.7 \<or> m > 0.7 \<or> real_of_int ws > 0.8 * 1000 \<or> real_of_int pj > 0.8 * 100))
   \<and> determineHealthStatus 0.9 0.9 1000 100 = Degraded
   \<and> determineHealthStatus 0.7 0.7 800 80 = Healthy"
  by (simp add: determineHealthStatus_def MAX_WS_CONNECTIONS_def MAX_JOBS_PER_WORKER_def)

subsection \<open>Accepting a connection\<close>

text \<open>
  C10. \<open>canAcceptConnection\<close> is true if and only if the classification just sampled is
  not unhealthy and the open connections are strictly below MAX_CONN (1000). With
  exactly 1000 open connections the connection is refused, although the classification
  is then unhealthy only through cpu, memory or jobs: it is otherwise degraded (1000
  exceeds the degraded threshold 800), so the classification at the boundary is one of
  healthy or degraded, namely degraded, on an otherwise idle host.
\<close>

theorem canAcceptConnection_iff:
  "(canAcceptConnection s \<longleftrightarrow>
      status (getServiceHealth s) \<noteq> Unhealthy
      \<and> wsConnections (getServiceHealth s) < MAX_WS_CONNECTIONS)
   \<and> status (getServiceHealth s) =
       determineHealthStatus (cpuUsage s) (memoryUsage s)
         (counter (counters s) ''ws_connections'') (counter (counters s) ''active_jobs'')
   \<and> wsConnections (getServiceHealth s) = counter (counters s) ''ws_connections''
   \<and> \<not> canAcceptConnection
         (s\<lparr>counters := (counters s)(''ws_connections'' \<mapsto> MAX_WS_CONNECTIONS)\<rparr>)
   \<and> determineHealthStatus c m MAX_WS_CONNECTIONS pj =
       (if c > 0.9 \<or> m > 0.9 \<or> pj > MAX_JOBS_PER_WORKER then Unhealthy else Degraded)
   \<and> status (getServiceHealth
         (idleHost\<lparr>counters := [''ws_connections'' \<mapsto> MAX_WS_CONNECTIONS]\<rparr>))
       \<in> {Healthy, Degraded}"
  by (simp add: canAcceptConnection_def getServiceHealth_def Let_def counter_def idleHost_def
      determineHealthStatus_def MAX_WS_CONNECTIONS_def MAX_JOBS_PER_WORKER_def)

subsection \<open>Worker score\<close>

text \<open>
  C6, as the specification states it, fails in its formula: the load term of the code
  is 1 - activeJobs / MAX_JOBS with the \<open>activeJobs\<close> field of the worker status, not
  the in-flight jobs of the health snapshot. \<^verbatim>\<open>updateWorkerHealth\<close> reads the two
  at different moments, so they can differ: for a healthy worker whose snapshot reports
  50 in-flight jobs and whose \<open>activeJobs\<close> is 49, the code scores 0.902, where the
  stated formula gives 0.9.
\<close>

theorem calculateWorkerScore_load_counterexample:
  "calculateWorkerScore (mkWorker ''worker-a'' Healthy 49 50 0) = 0.902
   \<and> spec_score (mkWorker ''worker-a'' Healthy 49 50 0) = 0.9
   \<and> calculateWorkerScore (mkWorker ''worker-a'' Healthy 49 50 0)
       \<noteq> spec_score (mkWorker ''worker-a'' Healthy 49 50 0)"
  by (simp add: calculateWorkerScore_def spec_score_def mkWorker_def Let_def
      MAX_WS_CONNECTIONS_def MAX_JOBS_PER_WORKER_def)

text \<open>
  C6, amended. The score is 0.3 health + 0.2 load + 0.2 cpu + 0.2 mem + 0.1 conn with
  health = 1 for healthy and 0.5 otherwise, load = 1 - activeJobs / 100 (the
  \<open>activeJobs\<close> field of the worker status), cpu = 1 - cpu fraction, mem = 1 - memory
  fraction, conn = 1 - openConnections / 1000. It is non-increasing in cpu, memory,
  openConnections and activeJobs, does not depend on the in-flight jobs of the health
  snapshot, and is non-decreasing in the health tier.
\<close>

theorem calculateWorkerScore_monotone:
  "calculateWorkerScore w =
     0.3 * (if status (health w) = Healthy then 1 else 0.5)
     + 0.2 * (1 - real_of_int (activeJobs w) / 100)
     + 0.2 * (1 - cpu (health w))
     + 0.2 * (1 - memory (health w))
     + 0.1 * (1 - real_of_int (wsConnections (health w)) / 1000)
 \<and> (c \<le> c' \<longrightarrow> calculateWorkerScore (w\<lparr>health := (health w)\<lparr>cpu := c'\<rparr>\<rparr>)
        \<le> calculateWorkerScore (w\<lparr>health := (health w)\<lparr>cpu := c\<rparr>\<rparr>))
 \<and> (m \<le> m' \<longrightarrow> calculateWorkerScore (w\<lparr>health := (health w)\<lparr>memory := m'\<rparr>\<rparr>)
        \<le> calculateWorkerScore (w\<lparr>health := (health w)\<lparr>memory := m\<rparr>\<rparr>))
 \<and> (n \<le> n' \<longrightarrow> calculateWorkerScore (w\<lparr>health := (health w)\<lparr>wsConnections := n'\<rparr>\<rparr>)
        \<le> calculateWorkerScore (w\<lparr>health := (health w)\<lparr>wsConnections := n\<rparr>\<rparr>))
 \<and> (j \<le> j' \<longrightarrow> calculateWorkerScore (w\<lparr>activeJobs := j'\<rparr>)
        \<le> calculateWorkerScore (w\<lparr>activeJobs := j\<rparr>))
 \<and> calculateWorkerScore (w\<lparr>health := (health w)\<lparr>processingJobs := p\<rparr>\<rparr>)
      = calculateWorkerScore w
 \<and> (tier t \<le> tier t' \<longrightarrow> calculateWorkerScore (w\<lparr>health := (health w)\<lparr>status := t\<rparr>\<rparr>)
        \<le> calculateWorkerScore (w\<lparr>health := (health w)\<lparr>status := t'\<rparr>\<rparr>))"
  by (cases t; cases t')
     (simp_all add: calculateWorkerScore_def Let_def MAX_WS_CONNECTIONS_def
        MAX_JOBS_PER_WORKER_def tier_def)

theorem calculateWorkerScore_monotone_witness:
  "(0.2::real) \<le> 0.6 \<and> (10::int) \<le> 20 \<and> tier Degraded \<le> tier Healthy
 \<and> calculateWorkerScore (mkWorker ''worker-b'' Degraded 50 50 0) = 0.75
 \<and> calculateWorkerScore
      ((mkWorker ''worker-b'' Degraded 50 50 0)
         \<lparr>health := (health (mkWorker ''worker-b'' Degraded 50 50 0))\<lparr>cpu := 0.6\<rparr>\<rparr>)
    \<le> calculateWorkerScore
      ((mkWorker ''worker-b'' Degraded 50 50 0)
         \<lparr>health := (health (mkWorker ''worker-b'' Degraded 50 50 0))\<lparr>cpu := 0.2\<rparr>\<rparr>)
 \<and> calculateWorkerScore
      ((mkWorker ''worker-b'' Degraded 50 50 0)
         \<lparr>health := (health (mkWorker ''worker-b'' Degraded 50 50 0))\<lparr>memory := 0.6\<rparr>\<rparr>)
    \<le> calculateWorkerScore
      ((mkWorker ''worker-b'' Degraded 50 50 0)
         \<lparr>health := (health (mkWorker ''worker-b'' Degraded 50 50 0))\<lparr>memory := 0.2\<rparr>\<rparr>)
 \<and> calculateWorkerScore
      ((mkWorker ''worker-b'' Degraded 50 50 0)
         \<lparr>health := (health (mkWorker ''worker-b'' Degraded 50 50 0))\<lparr>wsConnections := 20\<rparr>\<rparr>)
    \<le> calculateWorkerScore
      ((mkWorker ''worker-b'' Degraded 50 50 0)
         \<lparr>health := (health (mkWorker ''worker-b'' Degraded 50 50 0))\<lparr>wsConnections := 10\<rparr>\<rparr>)
 \<and> calculateWorkerScore ((mkWorker ''worker-b'' Degraded 50 50 0)\<lparr>activeJobs := 20\<rparr>)
    \<le> calculateWorkerScore ((mkWorker ''worker-b'' Degraded 50 50 0)\<lparr>activeJobs := 10\<rparr>)
 \<and> calculateWorkerScore
      ((mkWorker ''worker-b'' Degraded 50 50 0)
         \<lparr>health := (health (mkWorker ''worker-b'' Degraded 50 50 0))\<lparr>status := Degraded\<rparr>\<rparr>)
    \<le> calculateWorkerScore
      ((mkWorker ''worker-b'' Degraded 50 50 0)
         \<lparr>health := (health (mkWorker ''worker-b'' Degraded 50 50 0))\<lparr>status := Healthy\<rparr>\<rparr>)"
  using calculateWorkerScore_monotone
    [where w = "mkWorker ''worker-b'' Degraded 50 50 0" and c = "0.2" and c' = "0.6"
       and m = "0.2" and m' = "0.6" and n = 10 and n' = 20 and j = 10 and j' = 20
       and t = Degraded and t' = Healthy and p = 0]
  by (simp add: tier_def mkWorker_def)

subsection \<open>Worker selection\<close>

text \<open>
  The reduction of \<^verbatim>\<open>getOptimalWorker\<close> returns an element of maximal score, and every
  element before it has a strictly smaller score.
\<close>

lemma foldl_better_pick:
  "\<exists>k < length (x # xs). foldl better x xs = (x # xs) ! k
      \<and> (\<forall>j < length (x # xs). snd ((x # xs) ! j) \<le> snd ((x # xs) ! k))
      \<and> (\<forall>j < k. snd ((x # xs) ! j) < snd ((x # xs) ! k))"
proof (induction xs rule: rev_induct)
  case Nil
  show ?case by simp
next
  case (snoc y ys)
  then obtain k where k: "k < length (x # ys)" "foldl better x ys = (x # ys) ! k"
      and le: "\<forall>j < length (x # ys). snd ((x # ys) ! j) \<le> snd ((x # ys) ! k)"
      and lt: "\<forall>j < k. snd ((x # ys) ! j) < snd ((x # ys) ! k)"
    by blast
  let ?zs = "x # ys @ [y]"
  have nth_old: "\<And>j. j < length (x # ys) \<Longrightarrow> ?zs ! j = (x # ys) ! j"
    by (metis append_Cons nth_append)
  have nth_new: "?zs ! length (x # ys) = y"
    by (metis append_Cons nth_append_length)
  show ?case
  proof (cases "snd y > snd ((x # ys) ! k)")
    case True
    have "foldl better x (ys @ [y]) = ?zs ! length (x # ys)"
      using True k(2) nth_new by (simp add: better_def)
    moreover have "\<forall>j < length ?zs. snd (?zs ! j) \<le> snd (?zs ! length (x # ys))"
    proof (intro allI impI)
      fix j assume "j < length ?zs"
      then consider "j < length (x # ys)" | "j = length (x # ys)" by fastforce
      then show "snd (?zs ! j) \<le> snd (?zs ! length (x # ys))"
      proof cases
        case 1
        then show ?thesis using le True nth_old[OF 1] nth_new by force
      next
        case 2
        then show ?thesis by simp
      qed
    qed
    moreover have "\<forall>j < length (x # ys). snd (?zs ! j) < snd (?zs ! length (x # ys))"
    proof (intro allI impI)
      fix j assume j: "j < length (x # ys)"
      then show "snd (?zs ! j) < snd (?zs ! length (x # ys))"
        using le True nth_old[OF j] nth_new by force
    qed
    ultimately show ?thesis
      by (intro exI[of _ "length (x # ys)"]) simp
  next
    case False
    have "foldl better x (ys @ [y]) = ?zs ! k"
      using False k nth_old[OF k(1)] by (simp add: better_def)
    moreover have "\<forall>j < length ?zs. snd (?zs ! j) \<le> snd (?zs ! k)"
    proof (intro allI impI)
      fix j assume "j < length ?zs"
      then consider "j < length (x # ys)" | "j = length (x # ys)" by fastforce
      then show "snd (?zs ! j) \<le> snd (?zs ! k)"
      proof cases
        case 1
        then show ?thesis using le nth_old[OF 1] nth_old[OF k(1)] by force
      next
        case 2
        then show ?thesis using False nth_new nth_old[OF k(1)] by force
      qed
    qed
    moreover have "\<forall>j < k. snd (?zs ! j) < snd (?zs ! k)"
    proof (intro allI impI)
      fix j assume j: "j < k"
      then have j': "j < length (x # ys)" using k(1) by linarith
      show "snd (?zs ! j) < snd (?zs ! k)"
        using lt j nth_old[OF j'] nth_old[OF k(1)] by force
    qed
    ultimately show ?thesis
      using k(1) by (intro exI[of _ k]) simp
  qed
qed


lemma getOptimalWorker_unfold:
  "getOptimalWorker now ws =
     (case filter (isActive now) ws of
        [] \<Rightarrow> None
      | e # es \<Rightarrow> Some (fst (foldl better (fst e, calculateWorkerScore (snd e))
                               (map (\<lambda>e. (fst e, calculateWorkerScore (snd e))) es))))"
proof (cases "filter (isActive now) ws")
  case Nil
  then show ?thesis by (simp add: getOptimalWorker_def)
next
  case (Cons e es)
  then have "ws \<noteq> []" by auto
  with Cons show ?thesis by (simp add: getOptimalWorker_def)
qed

text \<open>
  C2. The selector returns none exactly when the registry holds no entry that is both
  not unhealthy and heard of less than WORKER_TIMEOUT ago (an empty registry included).
  When it returns an id, that id belongs to a registry entry that is not unhealthy and
  whose last heartbeat is less than WORKER_TIMEOUT in the past; among the entries that
  pass the filter, in registry order, none scores higher and every earlier one scores
  strictly lower, so a tie goes to the first encountered.
\<close>

theorem getOptimalWorker_selects:
  "getOptimalWorker now [] = None
   \<and> (getOptimalWorker now ws = None \<longleftrightarrow>
        (\<forall>e \<in> set ws. status (health (snd e)) = Unhealthy
                        \<or> now - lastHeartbeat (snd e) \<ge> WORKER_TIMEOUT))
   \<and> (getOptimalWorker now ws = Some i \<longrightarrow>
        (\<exists>k < length (filter (isActive now) ws).
            fst (filter (isActive now) ws ! k) = i
          \<and> filter (isActive now) ws ! k \<in> set ws
          \<and> status (health (snd (filter (isActive now) ws ! k))) \<noteq> Unhealthy
          \<and> now - lastHeartbeat (snd (filter (isActive now) ws ! k)) < WORKER_TIMEOUT
          \<and> (\<forall>j < length (filter (isActive now) ws).
                calculateWorkerScore (snd (filter (isActive now) ws ! j))
                \<le> calculateWorkerScore (snd (filter (isActive now) ws ! k)))
          \<and> (\<forall>j < k. calculateWorkerScore (snd (filter (isActive now) ws ! j))
                < calculateWorkerScore (snd (filter (isActive now) ws ! k)))))"
proof (intro conjI impI)
  show "getOptimalWorker now [] = None"
    by (simp add: getOptimalWorker_def)
next
  have "getOptimalWorker now ws = None \<longleftrightarrow> filter (isActive now) ws = []"
    by (simp add: getOptimalWorker_unfold split: list.split)
  also have "\<dots> \<longleftrightarrow> (\<forall>e \<in> set ws. \<not> isActive now e)"
    by (simp add: filter_empty_conv)
  also have "\<dots> \<longleftrightarrow> (\<forall>e \<in> set ws. status (health (snd e)) = Unhealthy
                        \<or> now - lastHeartbeat (snd e) \<ge> WORKER_TIMEOUT)"
    by (auto simp: isActive_def)
  finally show "getOptimalWorker now ws = None \<longleftrightarrow>
        (\<forall>e \<in> set ws. status (health (snd e)) = Unhealthy
                        \<or> now - lastHeartbeat (snd e) \<ge> WORKER_TIMEOUT)" .
next
  assume some: "getOptimalWorker now ws = Some i"
  let ?act = "filter (isActive now) ws"
  let ?f = "\<lambda>e. (fst e, calculateWorkerScore (snd e))"
  from some obtain e es where act: "?act = e # es"
    by (cases ?act) (simp_all add: getOptimalWorker_unfold)
  with some have i: "i = fst (foldl better (?f e) (map ?f es))"
    by (simp add: getOptimalWorker_unfold)
  have sc: "?f e # map ?f es = map ?f ?act"
    by (simp add: act)
  from foldl_better_pick[of "?f e" "map ?f es"] obtain k
    where k: "k < length (?f e # map ?f es)"
      and pick: "foldl better (?f e) (map ?f es) = (?f e # map ?f es) ! k"
      and le: "\<forall>j < length (?f e # map ?f es).
                 snd ((?f e # map ?f es) ! j) \<le> snd ((?f e # map ?f es) ! k)"
      and lt: "\<forall>j < k. snd ((?f e # map ?f es) ! j) < snd ((?f e # map ?f es) ! k)"
    by blast
  have kk: "k < length ?act" using k by (simp add: act)
  have nth: "(?f e # map ?f es) ! j = ?f (?act ! j)" if "j < length ?act" for j
    unfolding sc using that by (rule nth_map)
  have mem: "?act ! k \<in> set ?act" using kk by (rule nth_mem)
  then have inws: "?act ! k \<in> set ws" and active: "isActive now (?act ! k)"
    by simp_all
  have "fst (?act ! k) = i"
    using i pick nth[OF kk] by simp
  moreover have "calculateWorkerScore (snd (?act ! j)) \<le> calculateWorkerScore (snd (?act ! k))"
    if "j < length ?act" for j
  proof -
    from that have "j < length (?f e # map ?f es)" by (simp add: act)
    with le have "snd ((?f e # map ?f es) ! j) \<le> snd ((?f e # map ?f es) ! k)" by blast
    then show ?thesis unfolding nth[OF that] nth[OF kk] by simp
  qed
  moreover have "calculateWorkerScore (snd (?act ! j)) < calculateWorkerScore (snd (?act ! k))"
    if "j < k" for j
  proof -
    from that kk have jj: "j < length ?act" by linarith
    from lt that have "snd ((?f e # map ?f es) ! j) < snd ((?f e # map ?f es) ! k)" by blast
    then show ?thesis unfolding nth[OF jj] nth[OF kk] by simp
  qed
  moreover have "status (health (snd (?act ! k))) \<noteq> Unhealthy"
      "now - lastHeartbeat (snd (?act ! k)) < WORKER_TIMEOUT"
    using active by (simp_all add: isActive_def)
  ultimately show "\<exists>k < length ?act.
            fst (?act ! k) = i
          \<and> ?act ! k \<in> set ws
          \<and> status (health (snd (?act ! k))) \<noteq> Unhealthy
          \<and> now - lastHeartbeat (snd (?act ! k)) < WORKER_TIMEOUT
          \<and> (\<forall>j < length ?act.
                calculateWorkerScore (snd (?act ! j)) \<le> calculateWorkerScore (snd (?act ! k)))
          \<and> (\<forall>j < k. calculateWorkerScore (snd (?act ! j))
                < calculateWorkerScore (snd (?act ! k)))"
    using kk inws by blast
qed

text \<open>
  On the sample registry at time 75000: worker-c is unhealthy, worker-d was last heard
  of 65000 ms ago, worker-b is degraded with 50 jobs (score 0.75), worker-a and
  worker-e are healthy and idle (score 1 each); the first of the two is returned.
\<close>

theorem getOptimalWorker_selects_witness:
  "getOptimalWorker 75000 sampleRegistry = Some ''worker-a''
   \<and> filter (isActive 75000) sampleRegistry = drop 2 sampleRegistry
   \<and> (\<exists>k < length (filter (isActive 75000) sampleRegistry).
        fst (filter (isActive 75000) sampleRegistry ! k) = ''worker-a''
      \<and> status (health (snd (filter (isActive 75000) sampleRegistry ! k))) \<noteq> Unhealthy
      \<and> 75000 - lastHeartbeat (snd (filter (isActive 75000) sampleRegistry ! k)) < WORKER_TIMEOUT
      \<and> (\<forall>j < length (filter (isActive 75000) sampleRegistry).
            calculateWorkerScore (snd (filter (isActive 75000) sampleRegistry ! j))
            \<le> calculateWorkerScore (snd (filter (isActive 75000) sampleRegistry ! k)))
      \<and> (\<forall>j < k. calculateWorkerScore (snd (filter (isActive 75000) sampleRegistry ! j))
            < calculateWorkerScore (snd (filter (isActive 75000) sampleRegistry ! k))))"
proof -
  have act: "filter (isActive 75000) sampleRegistry = drop 2 sampleRegistry"
    by (simp add: sampleRegistry_def isActive_def mkWorker_def WORKER_TIMEOUT_def)
  have res: "getOptimalWorker 75000 sampleRegistry = Some ''worker-a''"
    unfolding getOptimalWorker_unfold act
    by (simp add: sampleRegistry_def mkWorker_def better_def calculateWorkerScore_def
        MAX_WS_CONNECTIONS_def MAX_JOBS_PER_WORKER_def)
  from getOptimalWorker_selects[of 75000 sampleRegistry "''worker-a''"] res
  have "\<exists>k < length (filter (isActive 75000) sampleRegistry).
        fst (filter (isActive 75000) sampleRegistry ! k) = ''worker-a''
      \<and> status (health (snd (filter (isActive 75000) sampleRegistry ! k))) \<noteq> Unhealthy
      \<and> 75000 - lastHeartbeat (snd (filter (isActive 75000) sampleRegistry ! k)) < WORKER_TIMEOUT
      \<and> (\<forall>j < length (filter (isActive 75000) sampleRegistry).
            calculateWorkerScore (snd (filter (isActive 75000) sampleRegistry ! j))
            \<le> calculateWorkerScore (snd (filter (isActive 75000) sampleRegistry ! k)))
      \<and> (\<forall>j < k. calculateWorkerScore (snd (filter (isActive 75000) sampleRegistry ! j))
            < calculateWorkerScore (snd (filter (isActive 75000) sampleRegistry ! k)))"
    by blast
  with act res show ?thesis by blast
qed

subsection \<open>Publishing the status\<close>

text \<open>
  C5, as stated, fails: the time to live that a publish sets is not twice the heartbeat
  period (60 seconds for the period of 30000 ms) but the constant 120.
\<close>

theorem updateWorkerHealth_ttl_counterexample:
  "workersTtl (updateWorkerHealth ''worker-a'' idleHost idleHost 0
                 \<lparr> workers = [], workersTtl = None \<rparr>)
     \<noteq> Some (2 * (HEALTH_CHECK_INTERVAL div 1000))
   \<and> 2 * (HEALTH_CHECK_INTERVAL div 1000) = 60"
  by (simp add: updateWorkerHealth_def HEALTH_CHECK_INTERVAL_def Let_def)

text \<open>
  C5, amended. Every publish stores the status of the instance under its id and sets
  the time to live of the whole registry to 120 seconds, a constant of the code: four
  times the heartbeat period of 30 seconds, twice WORKER_TIMEOUT.
\<close>

theorem updateWorkerHealth_ttl:
  "workersTtl (updateWorkerHealth self s1 s2 now r) = Some 120
   \<and> 120 * 1000 = 4 * HEALTH_CHECK_INTERVAL
   \<and> 120 * 1000 = 2 * WORKER_TIMEOUT
   \<and> map_of (workers (updateWorkerHealth self s1 s2 now r)) self =
       Some \<lparr> workerId = self, health = getServiceHealth s1,
              activeJobs = getActiveJobCount s2, lastHeartbeat = now \<rparr>"
  by (simp add: updateWorkerHealth_def HEALTH_CHECK_INTERVAL_def WORKER_TIMEOUT_def Let_def
      update_conv')

section \<open>Properties of the admission control\<close>

text \<open>
  The effect of one check, written with the window in which it counts.
\<close>

lemma createLimiter_effect:
  "createLimiter config now req st =
     (if fst (windowAt (windowMs config) now (storeKey config req) st) < max' config
      then Admitted
      else Rejected 429
             (retryAfterHeader now (snd (windowAt (windowMs config) now (storeKey config req) st)))
             (snd (handler config)),
      st(storeKey config req \<mapsto>
           (if fst (windowAt (windowMs config) now (storeKey config req) st) < max' config
               \<and> finalStatus req < 400
            then fst (windowAt (windowMs config) now (storeKey config req) st) + 1
            else fst (windowAt (windowMs config) now (storeKey config req) st),
            snd (windowAt (windowMs config) now (storeKey config req) st))))"
  by (auto simp: createLimiter_def store_increment_def store_decrement_def windowAt_def
        handler_def Let_def split: option.splits)

lemma runChecks_Cons:
  "fst (runChecks ((config, t, r) # rest) st) =
     fst (createLimiter config t r st) # fst (runChecks rest (snd (createLimiter config t r st)))"
  "snd (runChecks ((config, t, r) # rest) st) =
     snd (runChecks rest (snd (createLimiter config t r st)))"
  by (simp_all add: split_beta)

lemma length_runChecks: "length (fst (runChecks checks st)) = length checks"
proof (induction checks arbitrary: st)
  case Nil
  show ?case by simp
next
  case (Cons c checks)
  obtain config t r where c: "c = (config, t, r)" by (cases c)
  show ?case unfolding c runChecks_Cons using Cons.IH by simp
qed

lemma countedBefore_Suc:
  "countedBefore k (c # cs) (r # rs) (Suc i)
     = (if counted k (r, c) then 1 else 0) + countedBefore k cs rs i"
  by (simp add: countedBefore_def)


text \<open>One check against a store in which the window of \<open>k\<close> is live.\<close>

lemma createLimiter_live:
  assumes "st k = Some (h, e)"
    and "checkKey (config, t, r) = k \<longrightarrow> config = cfg \<and> t < e"
  shows "snd (createLimiter config t r st) k
           = Some (h + (if counted k (fst (createLimiter config t r st), (config, t, r))
                        then 1 else 0), e)"
    and "checkKey (config, t, r) = k \<Longrightarrow>
           fst (createLimiter config t r st)
             = (if h < max' cfg then Admitted
                else Rejected 429 (retryAfterHeader t e) (snd (handler cfg)))"
proof -
  show "snd (createLimiter config t r st) k
           = Some (h + (if counted k (fst (createLimiter config t r st), (config, t, r))
                        then 1 else 0), e)"
  proof (cases "checkKey (config, t, r) = k")
    case True
    with assms(2) have c: "config = cfg" "t < e" by simp_all
    from True have key: "storeKey config r = k" by (simp add: checkKey_def)
    have w: "windowAt (windowMs config) t k st = (h, e)"
      using assms(1) c(2) by (simp add: windowAt_def)
    show ?thesis
      unfolding createLimiter_effect key w
      by (simp add: counted_def checkKey_def key)
  next
    case False
    then have key: "storeKey config r \<noteq> k" by (simp add: checkKey_def)
    show ?thesis
      unfolding createLimiter_effect using key assms(1)
      by (simp add: counted_def checkKey_def)
  qed
next
  assume k: "checkKey (config, t, r) = k"
  with assms(2) have c: "config = cfg" "t < e" by simp_all
  from k have key: "storeKey config r = k" by (simp add: checkKey_def)
  have w: "windowAt (windowMs config) t k st = (h, e)"
    using assms(1) c(2) by (simp add: windowAt_def)
  show "fst (createLimiter config t r st)
             = (if h < max' cfg then Admitted
                else Rejected 429 (retryAfterHeader t e) (snd (handler cfg)))"
    unfolding createLimiter_effect key w using c(1) by simp
qed



text \<open>The window of \<open>k\<close> after the sequence: its hits plus the counting checks.\<close>

lemma runChecks_live_store:
  assumes "st k = Some (h, e)"
    and "\<forall>c \<in> set checks. checkKey c = k \<longrightarrow> fst c = cfg \<and> fst (snd c) < e"
  shows "snd (runChecks checks st) k
           = Some (h + int (countedBefore k checks (fst (runChecks checks st)) (length checks)), e)"
  using assms
proof (induction checks arbitrary: st h)
  case Nil
  then show ?case by (simp add: countedBefore_def)
next
  case (Cons c checks)
  obtain config t r where c: "c = (config, t, r)" by (cases c)
  let ?res = "fst (createLimiter config t r st)"
  let ?st1 = "snd (createLimiter config t r st)"
  let ?h1 = "h + (if counted k (?res, (config, t, r)) then 1 else 0)"
  have pre: "checkKey (config, t, r) = k \<longrightarrow> config = cfg \<and> t < e"
    using Cons.prems(2) c by simp
  have st1: "?st1 k = Some (?h1, e)"
    using Cons.prems(1) pre by (rule createLimiter_live(1))
  have rest: "\<forall>c \<in> set checks. checkKey c = k \<longrightarrow> fst c = cfg \<and> fst (snd c) < e"
    using Cons.prems(2) by simp
  note ih = Cons.IH[of ?st1 ?h1, OF st1 rest]
  show ?case
    unfolding c runChecks_Cons length_Cons countedBefore_Suc using ih
    by (simp add: add.assoc)
qed






section \<open>Properties of the backlog drain\<close>

text \<open>
  One pass of the loop over an empty backlog, over a batch that is processed and over
  a batch that fails; then \<open>n\<close> passes in which every batch is processed.
\<close>

lemma processLoop_empty:
  "evolution_queue st = [] \<Longrightarrow> processLoop env k st = st"
  by (subst processLoop.simps) simp

lemma processLoop_ok_step:
  assumes "\<not> timeExceeded env k st" "evolution_queue st \<noteq> []"
    "batchOk env k (take batchSize (evolution_queue st))"
  shows "processLoop env k st =
     processLoop env (Suc k)
       (st\<lparr>evolution_queue := drop batchSize (evolution_queue st),
           isProcessing := isProcessing st \<and> \<not> toggledOff env k,
           batches := batches st @ [take batchSize (evolution_queue st)],
           processedCount := processedCount st + length (take batchSize (evolution_queue st))\<rparr>)"
proof -
  have ne: "take batchSize (evolution_queue st) \<noteq> []"
    using assms(2) by (simp add: batchSize_def)
  show ?thesis
    by (subst processLoop.simps) (use assms ne in \<open>simp add: Let_def\<close>)
qed

lemma processLoop_fail_step:
  assumes "\<not> timeExceeded env k st" "evolution_queue st \<noteq> []"
    "\<not> batchOk env k (take batchSize (evolution_queue st))"
  shows "processLoop env k st =
       st\<lparr>evolution_queue := drop batchSize (evolution_queue st) @ take batchSize (evolution_queue st),
           isProcessing := isProcessing st \<and> \<not> toggledOff env k,
           batches := batches st @ [take batchSize (evolution_queue st)]\<rparr>"
proof -
  have ne: "take batchSize (evolution_queue st) \<noteq> []"
    using assms(2) by (simp add: batchSize_def)
  show ?thesis
    by (subst processLoop.simps) (use assms ne in \<open>simp add: Let_def\<close>)
qed

lemma processLoop_ok_prefix:
  assumes "\<forall>i<n. \<not> timeExceeded env (k + i) st
             \<and> batchSize * i < length (evolution_queue st)
             \<and> batchOk env (k + i) (take batchSize (drop (batchSize * i) (evolution_queue st)))"
  shows "processLoop env k st = processLoop env (k + n) (after_batches env k n st)"
  using assms
proof (induction n)
  case 0
  show ?case by (simp add: after_batches_def)
next
  case (Suc n)
  let ?s = "after_batches env k n st"
  from Suc have ih: "processLoop env k st = processLoop env (k + n) ?s" by simp
  from Suc.prems have a: "\<not> timeExceeded env (k + n) st"
      "batchSize * n < length (evolution_queue st)"
      "batchOk env (k + n) (take batchSize (drop (batchSize * n) (evolution_queue st)))"
    by simp_all
  have t: "\<not> timeExceeded env (k + n) ?s"
    using a(1) by (simp add: timeExceeded_def after_batches_def)
  have q: "evolution_queue ?s = drop (batchSize * n) (evolution_queue st)"
    by (simp add: after_batches_def)
  have ne: "evolution_queue ?s \<noteq> []" using a(2) q by simp
  have ok: "batchOk env (k + n) (take batchSize (evolution_queue ?s))"
    using a(3) q by simp
  have "processLoop env (k + n) ?s = processLoop env (Suc (k + n))
       (?s\<lparr>evolution_queue := drop batchSize (evolution_queue ?s),
           isProcessing := isProcessing ?s \<and> \<not> toggledOff env (k + n),
           batches := batches ?s @ [take batchSize (evolution_queue ?s)],
           processedCount := processedCount ?s + length (take batchSize (evolution_queue ?s))\<rparr>)"
    by (rule processLoop_ok_step[OF t ne ok])
  also have "(?s\<lparr>evolution_queue := drop batchSize (evolution_queue ?s),
           isProcessing := isProcessing ?s \<and> \<not> toggledOff env (k + n),
           batches := batches ?s @ [take batchSize (evolution_queue ?s)],
           processedCount := processedCount ?s + length (take batchSize (evolution_queue ?s))\<rparr>)
        = after_batches env k (Suc n) st"
  proof (rule drainer.equality)
    show "evolution_queue (?s\<lparr>evolution_queue := drop batchSize (evolution_queue ?s),
           isProcessing := isProcessing ?s \<and> \<not> toggledOff env (k + n),
           batches := batches ?s @ [take batchSize (evolution_queue ?s)],
           processedCount := processedCount ?s + length (take batchSize (evolution_queue ?s))\<rparr>)
        = evolution_queue (after_batches env k (Suc n) st)"
      by (simp add: after_batches_def add.commute)
    show "isProcessing (?s\<lparr>evolution_queue := drop batchSize (evolution_queue ?s),
           isProcessing := isProcessing ?s \<and> \<not> toggledOff env (k + n),
           batches := batches ?s @ [take batchSize (evolution_queue ?s)],
           processedCount := processedCount ?s + length (take batchSize (evolution_queue ?s))\<rparr>)
        = isProcessing (after_batches env k (Suc n) st)"
      by (auto simp: after_batches_def less_Suc_eq)
    show "batches (?s\<lparr>evolution_queue := drop batchSize (evolution_queue ?s),
           isProcessing := isProcessing ?s \<and> \<not> toggledOff env (k + n),
           batches := batches ?s @ [take batchSize (evolution_queue ?s)],
           processedCount := processedCount ?s + length (take batchSize (evolution_queue ?s))\<rparr>)
        = batches (after_batches env k (Suc n) st)"
      by (simp add: after_batches_def)
    have "min L m + min (L - m) b = min L (m + b)" for L m b :: nat
      by arith
    then have "min (length (evolution_queue st)) (batchSize * n)
            + min (length (evolution_queue st) - batchSize * n) batchSize
          = min (length (evolution_queue st)) (batchSize * Suc n)"
      by simp
    then show "processedCount (?s\<lparr>evolution_queue := drop batchSize (evolution_queue ?s),
           isProcessing := isProcessing ?s \<and> \<not> toggledOff env (k + n),
           batches := batches ?s @ [take batchSize (evolution_queue ?s)],
           processedCount := processedCount ?s + length (take batchSize (evolution_queue ?s))\<rparr>)
        = processedCount (after_batches env k (Suc n) st)"
      by (simp add: after_batches_def)
  qed (simp_all add: after_batches_def)
  finally show ?case using ih by simp
qed

text \<open>The same for a run started by \<open>processEvolutionQueue\<close> on an idle instance.\<close>

lemma run_ok_prefix:
  assumes "\<forall>i<n. clock env i - now \<le> maxProcessingTime
             \<and> batchSize * i < length (evolution_queue st)
             \<and> batchOk env i (take batchSize (drop (batchSize * i) (evolution_queue st)))"
  shows "processLoop env 0
           (st\<lparr>isProcessing := True, processStartTime := Some now, processedCount := 0\<rparr>)
         = processLoop env n
             (after_batches env 0 n
                (st\<lparr>isProcessing := True, processStartTime := Some now, processedCount := 0\<rparr>))"
proof -
  let ?st0 = "st\<lparr>isProcessing := True, processStartTime := Some now, processedCount := 0\<rparr>"
  have "\<forall>i<n. \<not> timeExceeded env (0 + i) ?st0
             \<and> batchSize * i < length (evolution_queue ?st0)
             \<and> batchOk env (0 + i) (take batchSize (drop (batchSize * i) (evolution_queue ?st0)))"
    using assms by (auto simp: timeExceeded_def not_less)
  then have "processLoop env 0 ?st0 = processLoop env (0 + n) (after_batches env 0 n ?st0)"
    by (rule processLoop_ok_prefix)
  then show ?thesis by simp
qed

text \<open>
  C4, as stated, fails: the failed batch is not followed by the later items, it is put
  behind them. With twelve entries and a first batch that fails, the backlog ends as
  the two later entries followed by the ten of the failed batch, which is not the
  original order.
\<close>

theorem processEvolutionQueue_requeue_counterexample:
  "evolution_queue (snd (processEvolutionQueue failFirstEnv 0 (idleDrainer ids12)))
     = [''k'', ''l'', ''a'', ''b'', ''c'', ''d'', ''e'', ''f'', ''g'', ''h'', ''i'', ''j'']
   \<and> evolution_queue (snd (processEvolutionQueue failFirstEnv 0 (idleDrainer ids12)))
     \<noteq> drop (batchSize * 0) ids12"
proof -
  let ?st0 = "(idleDrainer ids12)
                \<lparr>isProcessing := True, processStartTime := Some 0, processedCount := 0\<rparr>"
  have t: "\<not> timeExceeded failFirstEnv 0 ?st0"
    by (simp add: timeExceeded_def failFirstEnv_def maxProcessingTime_def)
  have ne: "evolution_queue ?st0 \<noteq> []"
    by (simp add: idleDrainer_def ids12_def)
  have bad: "\<not> batchOk failFirstEnv 0 (take batchSize (evolution_queue ?st0))"
    by (simp add: failFirstEnv_def)
  have "evolution_queue (processLoop failFirstEnv 0 ?st0)
          = drop batchSize ids12 @ take batchSize ids12"
    unfolding processLoop_fail_step[OF t ne bad] by (simp add: idleDrainer_def)
  then have "evolution_queue (snd (processEvolutionQueue failFirstEnv 0 (idleDrainer ids12)))
          = drop batchSize ids12 @ take batchSize ids12"
    by (simp add: processEvolutionQueue_def idleDrainer_def Let_def)
  then show ?thesis
    by (simp add: ids12_def batchSize_def)
qed

text \<open>
  C4, amended. For every backlog, if the batches before the \<open>n\<close>-th (counted from 0)
  are processed within the time budget and the \<open>n\<close>-th fails, that batch is handed to
  the collaborator once, pushed back verbatim at the tail, and the run stops: the
  backlog is then all later items, in their order, followed by the failed batch, in its
  order, and the run reports the items of the batches before it as processed.
\<close>

theorem processEvolutionQueue_failed_batch:
  assumes "\<not> isProcessing st"
    and "batchSize * n < length (evolution_queue st)"
    and "\<forall>i\<le>n. clock env i - now \<le> maxProcessingTime"
    and "\<forall>i<n. batchOk env i (take batchSize (drop (batchSize * i) (evolution_queue st)))"
    and "\<not> batchOk env n (take batchSize (drop (batchSize * n) (evolution_queue st)))"
  shows "evolution_queue (snd (processEvolutionQueue env now st))
           = drop (batchSize * Suc n) (evolution_queue st)
             @ take batchSize (drop (batchSize * n) (evolution_queue st))
       \<and> batches (snd (processEvolutionQueue env now st))
           = batches st
             @ map (\<lambda>i. take batchSize (drop (batchSize * i) (evolution_queue st))) [0..<Suc n]
       \<and> fst (processEvolutionQueue env now st) = ProcessingComplete (batchSize * n)
       \<and> \<not> isProcessing (snd (processEvolutionQueue env now st))"
proof -
  let ?q = "evolution_queue st"
  let ?st0 = "st\<lparr>isProcessing := True, processStartTime := Some now, processedCount := 0\<rparr>"
  let ?s = "after_batches env 0 n ?st0"
  have pre: "\<forall>i<n. clock env i - now \<le> maxProcessingTime
             \<and> batchSize * i < length ?q
             \<and> batchOk env i (take batchSize (drop (batchSize * i) ?q))"
  proof (intro allI impI)
    fix i assume i: "i < n"
    then have "batchSize * i \<le> batchSize * n" by simp
    with assms(2) have "batchSize * i < length ?q" by linarith
    with i assms(3,4) show "clock env i - now \<le> maxProcessingTime
             \<and> batchSize * i < length ?q
             \<and> batchOk env i (take batchSize (drop (batchSize * i) ?q))"
      by simp
  qed
  have unroll: "processLoop env 0 ?st0 = processLoop env n ?s"
    using pre by (rule run_ok_prefix)
  have q: "evolution_queue ?s = drop (batchSize * n) ?q"
    by (simp add: after_batches_def)
  have t: "\<not> timeExceeded env n ?s"
    using assms(3) by (auto simp: timeExceeded_def after_batches_def not_less)
  have ne: "evolution_queue ?s \<noteq> []"
    using assms(2) q by simp
  have bad: "\<not> batchOk env n (take batchSize (evolution_queue ?s))"
    using assms(5) q by simp
  have final: "processLoop env 0 ?st0 =
       ?s\<lparr>evolution_queue := drop batchSize (evolution_queue ?s) @ take batchSize (evolution_queue ?s),
          isProcessing := isProcessing ?s \<and> \<not> toggledOff env n,
          batches := batches ?s @ [take batchSize (evolution_queue ?s)]\<rparr>"
    unfolding unroll by (rule processLoop_fail_step[OF t ne bad])
  have full: "length (take (batchSize * n) ?q) = batchSize * n"
    using assms(2) by simp
  have run: "processEvolutionQueue env now st =
       (ProcessingComplete (processedCount (processLoop env 0 ?st0)),
        (processLoop env 0 ?st0)\<lparr>isProcessing := False, processStartTime := None\<rparr>)"
    using assms(1) by (simp add: processEvolutionQueue_def Let_def)
  have "evolution_queue (snd (processEvolutionQueue env now st))
           = drop (batchSize * Suc n) ?q @ take batchSize (drop (batchSize * n) ?q)"
    unfolding run final by (simp add: after_batches_def add.commute)
  moreover have "batches (snd (processEvolutionQueue env now st))
           = batches st @ map (\<lambda>i. take batchSize (drop (batchSize * i) ?q)) [0..<Suc n]"
    unfolding run final by (simp add: after_batches_def)
  moreover have "fst (processEvolutionQueue env now st) = ProcessingComplete (batchSize * n)"
    unfolding run final using full by (simp add: after_batches_def)
  moreover have "\<not> isProcessing (snd (processEvolutionQueue env now st))"
    unfolding run by simp
  ultimately show ?thesis by blast
qed

text \<open>
  With 25 entries and a second batch that fails: the first ten are consumed, the
  backlog ends as entries 21 to 25 followed by entries 11 to 20.
\<close>

theorem processEvolutionQueue_failed_batch_witness:
  "\<not> isProcessing (idleDrainer ids25)
   \<and> batchSize * 1 < length (evolution_queue (idleDrainer ids25))
   \<and> evolution_queue (snd (processEvolutionQueue failSecondEnv 0 (idleDrainer ids25)))
       = [''u'', ''v'', ''w'', ''x'', ''y'',
          ''k'', ''l'', ''m'', ''n'', ''o'', ''p'', ''q'', ''r'', ''s'', ''t'']
   \<and> batches (snd (processEvolutionQueue failSecondEnv 0 (idleDrainer ids25)))
       = [[''a'', ''b'', ''c'', ''d'', ''e'', ''f'', ''g'', ''h'', ''i'', ''j''],
          [''k'', ''l'', ''m'', ''n'', ''o'', ''p'', ''q'', ''r'', ''s'', ''t'']]
   \<and> fst (processEvolutionQueue failSecondEnv 0 (idleDrainer ids25)) = ProcessingComplete 10"
proof -
  have a1: "\<not> isProcessing (idleDrainer ids25)"
    by (simp add: idleDrainer_def)
  have a2: "batchSize * 1 < length (evolution_queue (idleDrainer ids25))"
    by (simp add: idleDrainer_def ids25_def batchSize_def)
  have a3: "\<forall>i\<le>1. clock failSecondEnv i - 0 \<le> maxProcessingTime"
    by (simp add: failSecondEnv_def maxProcessingTime_def)
  have a4: "\<forall>i<1. batchOk failSecondEnv i
              (take batchSize (drop (batchSize * i) (evolution_queue (idleDrainer ids25))))"
    by (simp add: failSecondEnv_def)
  have a5: "\<not> batchOk failSecondEnv 1
              (take batchSize (drop (batchSize * 1) (evolution_queue (idleDrainer ids25))))"
    by (simp add: failSecondEnv_def)
  have up: "[0..<Suc 1] = [0, 1]"
    by (simp add: upt_rec)
  show ?thesis
    using processEvolutionQueue_failed_batch[OF a1 a2 a3 a4 a5] a1 a2
    unfolding up
    by (simp add: idleDrainer_def ids25_def batchSize_def)
qed

text \<open>
  C7. A run over a backlog of 25 items, with the batch size 10 of the code, in which
  the three batches are processed within the time budget, hands exactly three batches
  to the collaborator: the first ten items, the next ten and the last five, which
  together are the backlog in its order; it reports 25 processed items and leaves the
  backlog empty.
\<close>

theorem processEvolutionQueue_drains_25:
  assumes "length (evolution_queue st) = 25"
    and "\<not> isProcessing st"
    and "\<forall>i<3. clock env i - now \<le> maxProcessingTime"
    and "\<forall>i<3. batchOk env i (take batchSize (drop (batchSize * i) (evolution_queue st)))"
  shows "fst (processEvolutionQueue env now st) = ProcessingComplete 25
       \<and> evolution_queue (snd (processEvolutionQueue env now st)) = []
       \<and> batches (snd (processEvolutionQueue env now st))
           = batches st @ [take 10 (evolution_queue st),
                           take 10 (drop 10 (evolution_queue st)),
                           drop 20 (evolution_queue st)]
       \<and> map length [take 10 (evolution_queue st),
                      take 10 (drop 10 (evolution_queue st)),
                      drop 20 (evolution_queue st)] = [10, 10, 5]
       \<and> concat [take 10 (evolution_queue st),
                  take 10 (drop 10 (evolution_queue st)),
                  drop 20 (evolution_queue st)] = evolution_queue st"
proof -
  let ?q = "evolution_queue st"
  let ?st0 = "st\<lparr>isProcessing := True, processStartTime := Some now, processedCount := 0\<rparr>"
  let ?s = "after_batches env 0 3 ?st0"
  have pre: "\<forall>i<3. clock env i - now \<le> maxProcessingTime
             \<and> batchSize * i < length ?q
             \<and> batchOk env i (take batchSize (drop (batchSize * i) ?q))"
  proof (intro allI impI)
    fix i :: nat assume i: "i < 3"
    then have "batchSize * i < length ?q"
      using assms(1) by (simp add: batchSize_def)
    with i assms(3,4) show "clock env i - now \<le> maxProcessingTime
             \<and> batchSize * i < length ?q
             \<and> batchOk env i (take batchSize (drop (batchSize * i) ?q))"
      by simp
  qed
  have unroll: "processLoop env 0 ?st0 = processLoop env 3 ?s"
    using pre by (rule run_ok_prefix)
  have "evolution_queue ?s = []"
    using assms(1) by (simp add: after_batches_def batchSize_def)
  then have final: "processLoop env 0 ?st0 = ?s"
    unfolding unroll by (rule processLoop_empty)
  have run: "processEvolutionQueue env now st =
       (ProcessingComplete (processedCount ?s),
        ?s\<lparr>isProcessing := False, processStartTime := None\<rparr>)"
    using assms(2) by (simp add: processEvolutionQueue_def Let_def final)
  have up: "[0..<3] = [0, 1, 2]"
    by (simp add: upt_rec)
  have last: "take 10 (drop 20 ?q) = drop 20 ?q"
    using assms(1) by simp
  have "fst (processEvolutionQueue env now st) = ProcessingComplete 25"
    unfolding run using assms(1) by (simp add: after_batches_def batchSize_def)
  moreover have "evolution_queue (snd (processEvolutionQueue env now st)) = []"
    unfolding run using assms(1) by (simp add: after_batches_def batchSize_def)
  moreover have "batches (snd (processEvolutionQueue env now st))
           = batches st @ [take 10 ?q, take 10 (drop 10 ?q), drop 20 ?q]"
    unfolding run using last by (simp add: after_batches_def batchSize_def up)
  moreover have "map length [take 10 ?q, take 10 (drop 10 ?q), drop 20 ?q] = [10, 10, 5]"
    using assms(1) by simp
  moreover have "concat [take 10 ?q, take 10 (drop 10 ?q), drop 20 ?q] = ?q"
  proof -
    have "take 10 (drop 10 ?q) @ drop 20 ?q = drop 10 ?q"
      using append_take_drop_id[of 10 "drop 10 ?q"] by simp
    then show ?thesis by simp
  qed
  ultimately show ?thesis by blast
qed

theorem processEvolutionQueue_drains_25_witness:
  "length (evolution_queue (idleDrainer ids25)) = 25
   \<and> \<not> isProcessing (idleDrainer ids25)
   \<and> fst (processEvolutionQueue allOkEnv 0 (idleDrainer ids25)) = ProcessingComplete 25
   \<and> evolution_queue (snd (processEvolutionQueue allOkEnv 0 (idleDrainer ids25))) = []
   \<and> batches (snd (processEvolutionQueue allOkEnv 0 (idleDrainer ids25)))
       = [[''a'', ''b'', ''c'', ''d'', ''e'', ''f'', ''g'', ''h'', ''i'', ''j''],
          [''k'', ''l'', ''m'', ''n'', ''o'', ''p'', ''q'', ''r'', ''s'', ''t''],
          [''u'', ''v'', ''w'', ''x'', ''y'']]"
proof -
  have a1: "length (evolution_queue (idleDrainer ids25)) = 25"
    by (simp add: idleDrainer_def ids25_def)
  have a2: "\<not> isProcessing (idleDrainer ids25)"
    by (simp add: idleDrainer_def)
  have a3: "\<forall>i<3. clock allOkEnv i - 0 \<le> maxProcessingTime"
    by (simp add: allOkEnv_def maxProcessingTime_def)
  have a4: "\<forall>i<3. batchOk allOkEnv i
              (take batchSize (drop (batchSize * i) (evolution_queue (idleDrainer ids25))))"
    by (simp add: allOkEnv_def)
  show ?thesis
    using processEvolutionQueue_drains_25[OF a1 a2 a3 a4] a1 a2
    by (simp add: idleDrainer_def ids25_def)
qed

subsection \<open>Several clients on one backlog\<close>

text \<open>
  C8, as stated, fails: the dequeue is not one atomic step. When two instances each
  send their read before either sends its trim, both hold the same ten entries; the
  two trims then remove twenty positions, so the entries behind the batch leave the
  backlog without having been read by anyone.
\<close>

theorem dequeue_not_atomic_counterexample:
  "held (run_schedule (freshCluster ids12)
           [(0, LRANGE), (1, LRANGE), (0, LTRIM), (1, LTRIM)]) 0
     = [''a'', ''b'', ''c'', ''d'', ''e'', ''f'', ''g'', ''h'', ''i'', ''j'']
   \<and> held (run_schedule (freshCluster ids12)
           [(0, LRANGE), (1, LRANGE), (0, LTRIM), (1, LTRIM)]) 1
     = [''a'', ''b'', ''c'', ''d'', ''e'', ''f'', ''g'', ''h'', ''i'', ''j'']
   \<and> backlog (run_schedule (freshCluster ids12)
           [(0, LRANGE), (1, LRANGE), (0, LTRIM), (1, LTRIM)]) = []"
  by (simp add: run_schedule_def freshCluster_def ids12_def batchSize_def)

text \<open>
  An enqueue of the same instance between its read and its trim has the same effect:
  the trim removes the new head entry, which nobody has read, and leaves the last entry
  of the batch in the backlog although the run holds it.
\<close>

lemma enqueue_between_read_and_trim:
  "held (run_schedule (freshCluster ids12) [(0, LRANGE), (0, LPUSH ''z''), (0, LTRIM)]) 0
     = [''a'', ''b'', ''c'', ''d'', ''e'', ''f'', ''g'', ''h'', ''i'', ''j'']
   \<and> backlog (run_schedule (freshCluster ids12) [(0, LRANGE), (0, LPUSH ''z''), (0, LTRIM)])
     = [''j'', ''k'', ''l'']"
  by (simp add: run_schedule_def freshCluster_def ids12_def batchSize_def)

text \<open>
  C8, amended. A drain run takes its batch with two store commands before it processes
  it: a read of the first BATCH_SIZE entries, then a trim of the first BATCH_SIZE
  entries. When no store command on the backlog, of another instance or of this
  instance itself (its enqueue), runs between the two, the batch held is exactly what
  left the backlog: the backlog before is the batch followed by the backlog after, and
  the batches of the other instances are untouched. If before the read every entry was
  in one place only (not twice in the backlog, not both held and in the backlog, not
  held by two drainers), this is again so after the trim: the batch is held by this
  drainer alone and is no longer in the backlog. A batch that fails is pushed back at
  the tail and is in the backlog again (at least once, not exactly once). The pair of
  read and trim is not atomic: a command between the two breaks this.
\<close>

theorem dequeue_uninterrupted:
  "held (run_schedule c [(i, LRANGE), (i, LTRIM)]) i = take batchSize (backlog c)
   \<and> backlog (run_schedule c [(i, LRANGE), (i, LTRIM)]) = drop batchSize (backlog c)
   \<and> held (run_schedule c [(i, LRANGE), (i, LTRIM)]) i
       @ backlog (run_schedule c [(i, LRANGE), (i, LTRIM)]) = backlog c
   \<and> (\<forall>j. j \<noteq> i \<longrightarrow> held (run_schedule c [(i, LRANGE), (i, LTRIM)]) j = held c j)
   \<and> (exclusive c \<longrightarrow> exclusive (run_schedule c [(i, LRANGE), (i, LTRIM)]))
   \<and> backlog (run_schedule c [(i, LRANGE), (i, LTRIM), (i, RPUSH)])
       = drop batchSize (backlog c) @ take batchSize (backlog c)"
proof -
  let ?c' = "run_schedule c [(i, LRANGE), (i, LTRIM)]"
  let ?B = "backlog c"
  have h: "held ?c' = (held c)(i := take batchSize ?B)"
    by (simp add: run_schedule_def)
  have b: "backlog ?c' = drop batchSize ?B"
    by (simp add: run_schedule_def)
  have excl: "exclusive ?c'" if ex: "exclusive c"
  proof -
    from ex have d: "distinct ?B"
      and hb: "\<And>j. set (held c j) \<inter> set ?B = {}"
      and hh: "\<And>j j'. j \<noteq> j' \<Longrightarrow> set (held c j) \<inter> set (held c j') = {}"
      by (simp_all add: exclusive_def)
    have "distinct (take batchSize ?B @ drop batchSize ?B)"
      using d by simp
    then have td: "set (take batchSize ?B) \<inter> set (drop batchSize ?B) = {}"
      by (simp only: distinct_append)
    have sub_t: "set (take batchSize ?B) \<subseteq> set ?B" by (rule set_take_subset)
    have sub_d: "set (drop batchSize ?B) \<subseteq> set ?B" by (rule set_drop_subset)
    have 1: "distinct (backlog ?c')"
      unfolding b using d by simp
    have 2: "set (held ?c' j) \<inter> set (backlog ?c') = {}" for j
    proof (cases "j = i")
      case True
      then show ?thesis unfolding h b using td by simp
    next
      case False
      then show ?thesis unfolding h b using hb[of j] sub_d by auto
    qed
    have 3: "set (held ?c' j) \<inter> set (held ?c' j') = {}" if neq: "j \<noteq> j'" for j j'
    proof -
      consider "j = i" "j' \<noteq> i" | "j' = i" "j \<noteq> i" | "j \<noteq> i" "j' \<noteq> i"
        using neq by blast
      then show ?thesis
      proof cases
        case 1
        then show ?thesis unfolding h using hb[of j'] sub_t by auto
      next
        case 2
        then show ?thesis unfolding h using hb[of j] sub_t by auto
      next
        case 3
        then show ?thesis unfolding h using hh[OF neq] by simp
      qed
    qed
    from 1 2 3 show ?thesis by (simp add: exclusive_def)
  qed
  have r: "backlog (run_schedule c [(i, LRANGE), (i, LTRIM), (i, RPUSH)])
             = drop batchSize ?B @ take batchSize ?B"
    by (simp add: run_schedule_def)
  have "held ?c' i = take batchSize ?B" unfolding h by simp
  moreover have "held ?c' i @ backlog ?c' = ?B" unfolding h b by simp
  moreover have "\<forall>j. j \<noteq> i \<longrightarrow> held ?c' j = held c j" unfolding h by simp
  ultimately show ?thesis using b excl r by blast
qed

text \<open>
  On twelve distinct entries held by nobody: instance 0 holds the first ten, the last
  two stay, and every entry is in one place only.
\<close>

theorem dequeue_uninterrupted_witness:
  "exclusive (freshCluster ids12)
   \<and> exclusive (run_schedule (freshCluster ids12) [(0, LRANGE), (0, LTRIM)])
   \<and> held (run_schedule (freshCluster ids12) [(0, LRANGE), (0, LTRIM)]) 0
       = [''a'', ''b'', ''c'', ''d'', ''e'', ''f'', ''g'', ''h'', ''i'', ''j'']
   \<and> backlog (run_schedule (freshCluster ids12) [(0, LRANGE), (0, LTRIM)]) = [''k'', ''l'']"
proof -
  have ex: "exclusive (freshCluster ids12)"
    by (simp add: exclusive_def freshCluster_def ids12_def)
  from dequeue_uninterrupted[of "freshCluster ids12" 0] ex
  have "exclusive (run_schedule (freshCluster ids12) [(0, LRANGE), (0, LTRIM)])"
    and "held (run_schedule (freshCluster ids12) [(0, LRANGE), (0, LTRIM)]) 0
           = take batchSize (backlog (freshCluster ids12))"
    and "backlog (run_schedule (freshCluster ids12) [(0, LRANGE), (0, LTRIM)])
           = drop batchSize (backlog (freshCluster ids12))"
    by blast+
  with ex show ?thesis
    by (simp add: freshCluster_def ids12_def batchSize_def)
qed

subsection \<open>Pausing a run\<close>

text \<open>
  C9. \<^verbatim>\<open>toggleProcessing(false)\<close> only clears \<^verbatim>\<open>isProcessing\<close>, and the loop never
  reads that flag. On a backlog of twelve entries, with \<^verbatim>\<open>toggleProcessing(false)\<close>
  called while the first batch is in flight, the run goes on to pop and process the
  second batch and reports twelve processed items. A run in flight refuses a second
  \<^verbatim>\<open>processEvolutionQueue\<close>; once \<^verbatim>\<open>toggleProcessing(false)\<close> has cleared the flag,
  the same call is no longer refused and starts a second run beside the first.
\<close>

theorem toggleProcessing_false_does_not_stop:
  "fst (processEvolutionQueue toggleEnv 0 (idleDrainer ids12)) = ProcessingComplete 12
   \<and> batches (snd (processEvolutionQueue toggleEnv 0 (idleDrainer ids12)))
       = [[''a'', ''b'', ''c'', ''d'', ''e'', ''f'', ''g'', ''h'', ''i'', ''j''],
          [''k'', ''l'']]
   \<and> evolution_queue (snd (processEvolutionQueue toggleEnv 0 (idleDrainer ids12))) = []
   \<and> fst (processEvolutionQueue allOkEnv 50 midRun) = AlreadyInProgress
   \<and> fst (processEvolutionQueue allOkEnv 50 (toggleProcessing allOkEnv 50 False midRun))
       = ProcessingComplete 2"
proof -
  let ?st0 = "(idleDrainer ids12)
                \<lparr>isProcessing := True, processStartTime := Some 0, processedCount := 0\<rparr>"
  let ?s = "after_batches toggleEnv 0 2 ?st0"
  have "\<forall>i<2. clock toggleEnv i - 0 \<le> maxProcessingTime
             \<and> batchSize * i < length (evolution_queue (idleDrainer ids12))
             \<and> batchOk toggleEnv i
                 (take batchSize (drop (batchSize * i) (evolution_queue (idleDrainer ids12))))"
    by (auto simp: toggleEnv_def maxProcessingTime_def idleDrainer_def ids12_def batchSize_def
         less_2_cases_iff)
  then have unroll: "processLoop toggleEnv 0 ?st0 = processLoop toggleEnv 2 ?s"
    by (rule run_ok_prefix)
  have "evolution_queue ?s = []"
    by (simp add: after_batches_def idleDrainer_def ids12_def batchSize_def)
  then have final: "processLoop toggleEnv 0 ?st0 = ?s"
    unfolding unroll by (rule processLoop_empty)
  have up: "[0..<2] = [0, 1]"
    by (simp add: upt_rec)
  have run: "processEvolutionQueue toggleEnv 0 (idleDrainer ids12) =
       (ProcessingComplete (processedCount ?s),
        ?s\<lparr>isProcessing := False, processStartTime := None\<rparr>)"
    by (simp add: processEvolutionQueue_def Let_def final) (simp add: idleDrainer_def)
  have first: "fst (processEvolutionQueue toggleEnv 0 (idleDrainer ids12)) = ProcessingComplete 12"
    unfolding run by (simp add: after_batches_def idleDrainer_def ids12_def batchSize_def)
  have log: "batches (snd (processEvolutionQueue toggleEnv 0 (idleDrainer ids12)))
       = [[''a'', ''b'', ''c'', ''d'', ''e'', ''f'', ''g'', ''h'', ''i'', ''j''],
          [''k'', ''l'']]"
    unfolding run by (simp add: after_batches_def idleDrainer_def ids12_def batchSize_def up)
  have empty: "evolution_queue (snd (processEvolutionQueue toggleEnv 0 (idleDrainer ids12))) = []"
    unfolding run by (simp add: after_batches_def idleDrainer_def ids12_def batchSize_def)
  have refused: "fst (processEvolutionQueue allOkEnv 50 midRun) = AlreadyInProgress"
    by (simp add: processEvolutionQueue_def midRun_def)
  let ?m0 = "midRun\<lparr>isProcessing := True, processStartTime := Some 50, processedCount := 0\<rparr>"
  have t: "\<not> timeExceeded allOkEnv 0 ?m0"
    by (simp add: timeExceeded_def allOkEnv_def maxProcessingTime_def)
  have ne: "evolution_queue ?m0 \<noteq> []"
    by (simp add: midRun_def)
  have ok: "batchOk allOkEnv 0 (take batchSize (evolution_queue ?m0))"
    by (simp add: allOkEnv_def)
  have "processedCount (processLoop allOkEnv 0 ?m0) = 2"
    unfolding processLoop_ok_step[OF t ne ok]
    by (subst processLoop_empty) (simp_all add: midRun_def batchSize_def)
  then have second: "fst (processEvolutionQueue allOkEnv 50
                            (toggleProcessing allOkEnv 50 False midRun))
                       = ProcessingComplete 2"
    by (simp add: processEvolutionQueue_def toggleProcessing_def Let_def)
  from first log empty refused second show ?thesis by blast
qed

end
